theory Spec2Isabelle
  imports Complex_Main
begin

section \<open>Python errors and sequencing\<close>

text \<open>
  The exceptions that \<^verbatim>\<open>optimization.py\<close> can raise are values. \<open>AttributeError\<close> is what
  reading the attribute \<^verbatim>\<open>X\<close> of a variable raises when the solver holds no solution;
  \<open>TypeError\<close> is what subscripting a function object raises.
\<close>

datatype py_error = KeyError | IndexError | AssertionError | AttributeError | TypeError

fun and_then :: "py_error + 'a \<Rightarrow> ('a \<Rightarrow> py_error + 'b) \<Rightarrow> py_error + 'b" where
  "and_then (Inl e) f = Inl e"
| "and_then (Inr a) f = f a"

text \<open>A \<^verbatim>\<open>for\<close> loop over a list, threading the loop's state and stopping at the first raise.\<close>

fun for_each :: "'a list \<Rightarrow> ('a \<Rightarrow> 's \<Rightarrow> py_error + 's) \<Rightarrow> 's \<Rightarrow> py_error + 's" where
  "for_each [] body s = Inr s"
| "for_each (x # xs) body s = and_then (body x s) (for_each xs body)"

text \<open>Subscripting a Python list: \<^verbatim>\<open>xs[i]\<close> with \<open>i \<ge> 0\<close> raises IndexError out of range.\<close>

definition get :: "'a list \<Rightarrow> nat \<Rightarrow> py_error + 'a" where
  "get xs i = (if i < length xs then Inr (xs ! i) else Inl IndexError)"

definition entry :: "real list list \<Rightarrow> nat \<Rightarrow> nat \<Rightarrow> py_error + real" where
  "entry matrix i j = and_then (get matrix i) (\<lambda>row. get row j)"

section \<open>The metrics\<close>

text \<open>
  The objects the metric functions subscript: a function object, or the pair that
  \<^verbatim>\<open>distance_duration_car\<close> returns. Only a pair can be subscripted.
\<close>

datatype pyobj = Function string | Tuple2 real real

fun getitem :: "pyobj \<Rightarrow> nat \<Rightarrow> py_error + real" where
  "getitem (Function f) i = Inl TypeError"
| "getitem (Tuple2 a b) i = (if i = 0 then Inr a else if i = 1 then Inr b else Inl IndexError)"

text \<open>
  \<^verbatim>\<open>def distance_car(s, e): return distance_duration_car[0]\<close> and
  \<^verbatim>\<open>def duration_car(s, e): return duration_car[1]\<close>: the subscripted object is the
  function itself, never the result of a call.
\<close>

definition distance_car :: "'c \<Rightarrow> 'c \<Rightarrow> py_error + real" where
  "distance_car s e = getitem (Function ''distance_duration_car'') 0"

definition duration_car :: "'c \<Rightarrow> 'c \<Rightarrow> py_error + real" where
  "duration_car s e = getitem (Function ''duration_car'') 1"

text \<open>
  \<^verbatim>\<open>geodesic(s, e).meters\<close> belongs to the geopy library; it is a parameter of the model.
\<close>

type_synonym coord = "int \<times> int"

definition distance_straight_line :: "(coord \<Rightarrow> coord \<Rightarrow> real) \<Rightarrow> coord \<Rightarrow> coord \<Rightarrow> py_error + real" where
  "distance_straight_line geodesic s e = Inr (geodesic s e)"

text \<open>The members of \<^verbatim>\<open>METRICS\<close>; the assertion \<^verbatim>\<open>metric in METRICS\<close> holds for each.\<close>

datatype metric = Distance_car | Duration_car | Distance_straight_line

fun call_metric :: "(coord \<Rightarrow> coord \<Rightarrow> real) \<Rightarrow> metric \<Rightarrow> coord \<Rightarrow> coord \<Rightarrow> py_error + real" where
  "call_metric geodesic Distance_car s e = distance_car s e"
| "call_metric geodesic Duration_car s e = duration_car s e"
| "call_metric geodesic Distance_straight_line s e = distance_straight_line geodesic s e"

text \<open>
  \<^verbatim>\<open>example_matrix(n, metric)\<close>. The \<open>i\<close>-th pair of \<^verbatim>\<open>randint\<close> draws is \<open>draw i\<close>.
  The matrix starts as \<open>n\<close> rows of \<open>n\<close> times \<^verbatim>\<open>None\<close> and the double loop assigns
  \<^verbatim>\<open>matrix[i][j]\<close>.
\<close>

definition set_entry :: "real option list list \<Rightarrow> nat \<Rightarrow> nat \<Rightarrow> real \<Rightarrow> real option list list" where
  "set_entry matrix i j v = matrix[i := (matrix ! i)[j := Some v]]"

definition example_matrix ::
  "(coord \<Rightarrow> coord \<Rightarrow> real) \<Rightarrow> (nat \<Rightarrow> coord) \<Rightarrow> nat \<Rightarrow> metric \<Rightarrow> py_error + real option list list" where
  "example_matrix geodesic draw n metric =
     (let coordinates = map draw [0..<n] in
      for_each [0..<n] (\<lambda>i. for_each [0..<n] (\<lambda>j matrix.
          and_then (if i = j then Inr 0
                    else call_metric geodesic metric (coordinates ! i) (coordinates ! j))
            (\<lambda>v. Inr (set_entry matrix i j v))))
        (replicate n (replicate n None)))"

section \<open>The optimisation model\<close>

text \<open>
  \<^verbatim>\<open>optimize_ab(matrix, num_groups, min_size, max_size)\<close>. The matrix is a list of rows
  of reals (Python numbers, without rounding); \<open>num_groups\<close> is a natural number, since
  \<^verbatim>\<open>range\<close> of a negative number is as empty as \<^verbatim>\<open>range(0)\<close>; each size bound is an
  integer or \<^verbatim>\<open>None\<close>.

  Gurobi expressions are kept as the terms the code builds; \<open>eval\<close> gives a term its
  value under an assignment of the variables. \<open>Var i j\<close> is the variable \<^verbatim>\<open>g_i_j\<close>.
  A constraint is kept as the left side, the sense and the right side that
  \<^verbatim>\<open>m.addConstr\<close> receives; the names of variables and constraints play no part.
\<close>

datatype expr = Num real | Var nat nat | Add expr expr | Sub expr expr | Mul expr expr

fun eval :: "(nat \<Rightarrow> nat \<Rightarrow> real) \<Rightarrow> expr \<Rightarrow> real" where
  "eval x (Num c) = c"
| "eval x (Var i j) = x i j"
| "eval x (Add a b) = eval x a + eval x b"
| "eval x (Sub a b) = eval x a - eval x b"
| "eval x (Mul a b) = eval x a * eval x b"

datatype sense = Equal | GreaterEqual | LessEqual

datatype constr = Constr expr sense real

text \<open>The model object: its binary variables, its objective (maximised) and its constraints.\<close>

record model =
  vars :: "(nat \<times> nat) list"
  objective :: expr
  constrs :: "constr list"

text \<open>
  The keys of the tupledict \<^verbatim>\<open>g\<close>: both loops of lines 104 to 106 run over
  \<^verbatim>\<open>range(num_teams)\<close>.
\<close>

definition add_vars :: "nat \<Rightarrow> (nat \<times> nat) list" where
  "add_vars num_teams = concat (map (\<lambda>i. map (\<lambda>j. (i, j)) [0..<num_teams]) [0..<num_teams])"

text \<open>\<^verbatim>\<open>g[i, k]\<close> raises KeyError for a key that was never added.\<close>

definition getvar :: "(nat \<times> nat) list \<Rightarrow> nat \<Rightarrow> nat \<Rightarrow> py_error + expr" where
  "getvar g i k = (if (i, k) \<in> set g then Inr (Var i k) else Inl KeyError)"

text \<open>Lines 114 to 116: \<^verbatim>\<open>su = 0; for k in range(num_groups): su += g[i, k] * g[j, k]\<close>.\<close>

definition co_membership :: "(nat \<times> nat) list \<Rightarrow> nat \<Rightarrow> nat \<Rightarrow> nat \<Rightarrow> py_error + expr" where
  "co_membership g num_groups i j =
     for_each [0..<num_groups] (\<lambda>k su.
        and_then (getvar g i k) (\<lambda>a.
        and_then (getvar g j k) (\<lambda>b. Inr (Add su (Mul a b))))) (Num 0)"

text \<open>Lines 112 to 119: the body of the double loop that builds the objective.\<close>

definition objective_term ::
  "(nat \<times> nat) list \<Rightarrow> real list list \<Rightarrow> nat \<Rightarrow> nat \<Rightarrow> nat \<Rightarrow> expr \<Rightarrow> py_error + expr" where
  "objective_term g matrix num_groups i j obj =
     (if i \<ge> j then Inr obj
      else and_then (co_membership g num_groups i j) (\<lambda>su.
           and_then (entry matrix i j) (\<lambda>a.
           and_then (entry matrix j i) (\<lambda>b.
             Inr (Add obj (Mul (Sub (Num 1) su) (Num (2 * a + 2 * b))))))))"

definition build_objective :: "(nat \<times> nat) list \<Rightarrow> real list list \<Rightarrow> nat \<Rightarrow> py_error + expr" where
  "build_objective g matrix num_groups =
     (let num_teams = length matrix in
      for_each [0..<num_teams] (\<lambda>i.
        for_each [0..<num_teams] (\<lambda>j. objective_term g matrix num_groups i j)) (Num 0))"

text \<open>Lines 124 to 128: one constraint \<^verbatim>\<open>su == 1\<close> for each team.\<close>

definition one_group_constrs ::
  "(nat \<times> nat) list \<Rightarrow> nat \<Rightarrow> nat \<Rightarrow> constr list \<Rightarrow> py_error + constr list" where
  "one_group_constrs g num_teams num_groups cs0 =
     for_each [0..<num_teams] (\<lambda>i cs.
        and_then (for_each [0..<num_groups] (\<lambda>j su.
                    and_then (getvar g i j) (\<lambda>v. Inr (Add su v))) (Num 0))
          (\<lambda>su. Inr (cs @ [Constr su Equal 1]))) cs0"

text \<open>Lines 131 to 138: the size constraints of each group, each bound only when it is given.\<close>

definition size_constrs ::
  "(nat \<times> nat) list \<Rightarrow> nat \<Rightarrow> nat \<Rightarrow> int option \<Rightarrow> int option \<Rightarrow> constr list
     \<Rightarrow> py_error + constr list" where
  "size_constrs g num_teams num_groups min_size max_size cs0 =
     for_each [0..<num_groups] (\<lambda>j cs.
        and_then (for_each [0..<num_teams] (\<lambda>i su.
                    and_then (getvar g i j) (\<lambda>v. Inr (Add su v))) (Num 0))
          (\<lambda>su. Inr (cs
             @ (case min_size of None \<Rightarrow> [] | Some a \<Rightarrow> [Constr su GreaterEqual (of_int a)])
             @ (case max_size of None \<Rightarrow> [] | Some b \<Rightarrow> [Constr su LessEqual (of_int b)])))) cs0"

text \<open>Lines 98 to 138: everything \<^verbatim>\<open>optimize_ab\<close> does before \<^verbatim>\<open>m.optimize()\<close>.\<close>

definition build_model ::
  "real list list \<Rightarrow> nat \<Rightarrow> int option \<Rightarrow> int option \<Rightarrow> py_error + model" where
  "build_model matrix num_groups min_size max_size =
     (let num_teams = length matrix; g = add_vars num_teams in
      and_then (build_objective g matrix num_groups) (\<lambda>obj.
      and_then (one_group_constrs g num_teams num_groups []) (\<lambda>cs.
      and_then (size_constrs g num_teams num_groups min_size max_size cs) (\<lambda>cs'.
        Inr \<lparr>vars = g, objective = obj, constrs = cs'\<rparr>))))"

section \<open>The solver and the extraction of the solution\<close>

text \<open>
  \<^verbatim>\<open>m.optimize()\<close> belongs to Gurobi: the solver is a parameter that maps the model to
  what can be read afterwards, the values \<^verbatim>\<open>g[i, k].X\<close> and the objective value, or to
  \<open>None\<close> when no solution is available.
\<close>

record solution =
  X :: "nat \<Rightarrow> nat \<Rightarrow> real"
  ObjVal :: real

text \<open>
  \<^verbatim>\<open>g[i, k].X\<close>: the lookup in \<^verbatim>\<open>g\<close>, then the attribute, which cannot be read when
  the solver holds no solution.
\<close>

definition read_X :: "(nat \<times> nat) list \<Rightarrow> solution option \<Rightarrow> nat \<Rightarrow> nat \<Rightarrow> py_error + real" where
  "read_X g sol i k =
     and_then (getvar g i k) (\<lambda>v.
       case sol of None \<Rightarrow> Inl AttributeError | Some s \<Rightarrow> Inr (X s i k))"

text \<open>Lines 145 to 148: the inner loop that assigns team \<open>i\<close> its group.\<close>

definition assign_team ::
  "(nat \<times> nat) list \<Rightarrow> solution option \<Rightarrow> nat \<Rightarrow> nat \<Rightarrow> nat option list \<Rightarrow> py_error + nat option list" where
  "assign_team g sol num_groups i t0 =
     for_each [0..<num_groups] (\<lambda>k teams_to_groups.
        and_then (read_X g sol i k) (\<lambda>x.
          if x > 1 / 2 then
            (if teams_to_groups ! i = None then Inr (teams_to_groups[i := Some k])
             else Inl AssertionError)
          else Inr teams_to_groups)) t0"

text \<open>Lines 142 to 148: every team starts with \<^verbatim>\<open>None\<close>.\<close>

definition decode ::
  "(nat \<times> nat) list \<Rightarrow> solution option \<Rightarrow> nat \<Rightarrow> nat \<Rightarrow> py_error + nat option list" where
  "decode g sol num_teams num_groups =
     for_each [0..<num_teams] (assign_team g sol num_groups) (replicate num_teams None)"

text \<open>Lines 154 to 156: the innermost loop of the recomputation, for one pair \<open>i < j\<close>.\<close>

definition pair_cost ::
  "(nat \<times> nat) list \<Rightarrow> solution option \<Rightarrow> real list list \<Rightarrow> nat \<Rightarrow> nat \<Rightarrow> nat \<Rightarrow> real
     \<Rightarrow> py_error + real" where
  "pair_cost g sol matrix num_groups i j t0 =
     for_each [0..<num_groups] (\<lambda>k total.
        and_then (read_X g sol i k) (\<lambda>a.
          if a > 1 / 2 then
            and_then (read_X g sol j k) (\<lambda>b.
              if b > 1 / 2 then
                and_then (entry matrix i j) (\<lambda>c.
                and_then (entry matrix j i) (\<lambda>d. Inr (total + (c * 2 + d * 2))))
              else Inr total)
          else Inr total)) t0"

text \<open>Lines 150 to 156: the total starts at 0 and \<open>j\<close> runs over \<^verbatim>\<open>range(i+1, num_teams)\<close>.\<close>

definition travel_cost ::
  "(nat \<times> nat) list \<Rightarrow> solution option \<Rightarrow> real list list \<Rightarrow> nat \<Rightarrow> py_error + real" where
  "travel_cost g sol matrix num_groups =
     (let num_teams = length matrix in
      for_each [0..<num_teams] (\<lambda>i.
        for_each [Suc i..<num_teams] (\<lambda>j. pair_cost g sol matrix num_groups i j)) 0)"

text \<open>
  The whole function: the model is built, the solver runs on it, and the pair of the
  decoded groups and the recomputed total is returned.
\<close>

definition optimize_ab ::
  "(model \<Rightarrow> solution option) \<Rightarrow> real list list \<Rightarrow> nat \<Rightarrow> int option \<Rightarrow> int option
     \<Rightarrow> py_error + (nat option list \<times> real)" where
  "optimize_ab solver matrix num_groups min_size max_size =
     and_then (build_model matrix num_groups min_size max_size) (\<lambda>m.
       let sol = solver m; g = vars m in
       and_then (decode g sol (length matrix) num_groups) (\<lambda>teams_to_groups.
       and_then (travel_cost g sol matrix num_groups) (\<lambda>total_distance_traveled.
         Inr (teams_to_groups, total_distance_traveled))))"

section \<open>Notions used to state the results\<close>

text \<open>A cost matrix is square: every row is as long as the matrix has rows.\<close>

definition square :: "real list list \<Rightarrow> bool" where
  "square matrix = list_all (\<lambda>row. length row = length matrix) matrix"

text \<open>The groups \<open>k\<close> of team \<open>i\<close> whose value \<^verbatim>\<open>g[i, k].X\<close> exceeds the threshold 0.5.\<close>

definition groups_above :: "solution \<Rightarrow> nat \<Rightarrow> nat \<Rightarrow> nat list" where
  "groups_above s num_groups i = filter (\<lambda>k. 1 / 2 < X s i k) [0..<num_groups]"

text \<open>
  What Gurobi promises of a solution it reports (taken exactly, without tolerances): every
  variable of the model is 0 or 1 and every constraint of the model holds.
\<close>

fun holds :: "(nat \<Rightarrow> nat \<Rightarrow> real) \<Rightarrow> constr \<Rightarrow> bool" where
  "holds x (Constr lhs Equal rhs) = (eval x lhs = rhs)"
| "holds x (Constr lhs GreaterEqual rhs) = (eval x lhs \<ge> rhs)"
| "holds x (Constr lhs LessEqual rhs) = (eval x lhs \<le> rhs)"

definition feasible :: "model \<Rightarrow> (nat \<Rightarrow> nat \<Rightarrow> real) \<Rightarrow> bool" where
  "feasible m x =
     (list_all (\<lambda>(i, j). x i j = 0 \<or> x i j = 1) (vars m) \<and> list_all (holds x) (constrs m))"

text \<open>
  The recomputation in the words of the specification: over every pair \<open>i < j\<close> whose
  decoded groups are equal, the sum of \<open>2 \<sqdot> cost[i][j] + 2 \<sqdot> cost[j][i]\<close>.
\<close>

definition recompute :: "real list list \<Rightarrow> nat option list \<Rightarrow> real" where
  "recompute cost assignment =
     (\<Sum>i\<leftarrow>[0..<length cost]. \<Sum>j\<leftarrow>[Suc i..<length cost].
        if assignment ! i = assignment ! j then 2 * cost ! i ! j + 2 * cost ! j ! i else 0)"

text \<open>
  The objective in the words of the specification, section 4.1:
  the sum over \<open>i < j\<close> of \<open>(1 - \<Sum>k. x[i,k] \<sqdot> x[j,k]) \<sqdot> (cost[i][j] + cost[j][i])\<close>.
\<close>

definition spec_objective :: "real list list \<Rightarrow> nat \<Rightarrow> (nat \<Rightarrow> nat \<Rightarrow> real) \<Rightarrow> real" where
  "spec_objective cost num_groups x =
     (\<Sum>i\<leftarrow>[0..<length cost]. \<Sum>j\<leftarrow>[Suc i..<length cost].
        (1 - (\<Sum>k\<leftarrow>[0..<num_groups]. x i k * x j k)) * (cost ! i ! j + cost ! j ! i))"

text \<open>
  The CostMatrix of the specification, section 3, in its words: \<open>N \<ge> 1\<close> rows of \<open>N\<close>
  entries, every entry a non-negative real (so no entry is \<^verbatim>\<open>None\<close>), and
  \<open>cost[i][i] = 0\<close>. Symmetry is not part of it and is stated apart.
\<close>

definition valid_cost_matrix :: "real option list list \<Rightarrow> bool" where
  "valid_cost_matrix cost =
     (1 \<le> length cost
      \<and> list_all (\<lambda>row. length row = length cost
            \<and> list_all (\<lambda>e. case e of None \<Rightarrow> False | Some v \<Rightarrow> 0 \<le> v) row) cost
      \<and> list_all (\<lambda>i. cost ! i ! i = Some 0) [0..<length cost])"

definition symmetric_matrix :: "real option list list \<Rightarrow> bool" where
  "symmetric_matrix cost =
     list_all (\<lambda>i. list_all (\<lambda>j. cost ! i ! j = cost ! j ! i) [0..<length cost]) [0..<length cost]"

text \<open>The terms that the loops of \<open>build_model\<close> produce when no lookup raises.\<close>

definition co_expr :: "nat \<Rightarrow> nat \<Rightarrow> nat \<Rightarrow> expr" where
  "co_expr num_groups i j =
     fold (\<lambda>k su. Add su (Mul (Var i k) (Var j k))) [0..<num_groups] (Num 0)"

definition obj_expr :: "real list list \<Rightarrow> nat \<Rightarrow> expr" where
  "obj_expr matrix num_groups =
     fold (\<lambda>i. fold (\<lambda>j obj. if i \<ge> j then obj
                 else Add obj (Mul (Sub (Num 1) (co_expr num_groups i j))
                                   (Num (2 * matrix ! i ! j + 2 * matrix ! j ! i))))
               [0..<length matrix])
       [0..<length matrix] (Num 0)"

definition group_sum :: "nat \<Rightarrow> nat \<Rightarrow> expr" where
  "group_sum num_groups i = fold (\<lambda>j su. Add su (Var i j)) [0..<num_groups] (Num 0)"

definition team_sum :: "nat \<Rightarrow> nat \<Rightarrow> expr" where
  "team_sum num_teams j = fold (\<lambda>i su. Add su (Var i j)) [0..<num_teams] (Num 0)"

definition bounds_of :: "expr \<Rightarrow> int option \<Rightarrow> int option \<Rightarrow> constr list" where
  "bounds_of su min_size max_size =
     (case min_size of None \<Rightarrow> [] | Some a \<Rightarrow> [Constr su GreaterEqual (of_int a)])
     @ (case max_size of None \<Rightarrow> [] | Some b \<Rightarrow> [Constr su LessEqual (of_int b)])"

definition constr_list :: "nat \<Rightarrow> nat \<Rightarrow> int option \<Rightarrow> int option \<Rightarrow> constr list" where
  "constr_list num_teams num_groups min_size max_size =
     map (\<lambda>i. Constr (group_sum num_groups i) Equal 1) [0..<num_teams]
     @ concat (map (\<lambda>j. bounds_of (team_sum num_teams j) min_size max_size) [0..<num_groups])"

text \<open>
  What the two loops after \<^verbatim>\<open>m.optimize()\<close> compute from a solution when nothing raises:
  the first group of a team above the threshold, and the triple sum of the recomputation.
\<close>

definition decoded :: "solution \<Rightarrow> nat \<Rightarrow> nat \<Rightarrow> nat option" where
  "decoded s num_groups i =
     (case groups_above s num_groups i of [] \<Rightarrow> None | k # rest \<Rightarrow> Some k)"

definition travel_sum :: "real list list \<Rightarrow> solution \<Rightarrow> nat \<Rightarrow> real" where
  "travel_sum matrix s num_groups =
     (\<Sum>i\<leftarrow>[0..<length matrix]. \<Sum>j\<leftarrow>[Suc i..<length matrix]. \<Sum>k\<leftarrow>[0..<num_groups].
        if 1 / 2 < X s i k \<and> 1 / 2 < X s j k then matrix ! i ! j * 2 + matrix ! j ! i * 2 else 0)"

text \<open>
  The value, under an assignment \<open>x\<close> of the variables, of the objective that
  \<^verbatim>\<open>m.setObjective(obj, GRB.MAXIMIZE)\<close> receives.
\<close>

definition objective_value ::
  "real list list \<Rightarrow> nat \<Rightarrow> int option \<Rightarrow> int option \<Rightarrow> (nat \<Rightarrow> nat \<Rightarrow> real) \<Rightarrow> py_error + real" where
  "objective_value matrix num_groups min_size max_size x =
     and_then (build_model matrix num_groups min_size max_size) (\<lambda>m. Inr (eval x (objective m)))"

section \<open>Concrete inputs\<close>

text \<open>Two teams one unit apart in each direction.\<close>

definition cost2 :: "real list list" where
  "cost2 = [[0, 1], [1, 0]]"

text \<open>
  Values of the variables: team \<open>i\<close> alone in group \<open>i\<close>; every team in group 0; every
  team in every group; no team in any group.
\<close>

definition apart :: "nat \<Rightarrow> nat \<Rightarrow> real" where
  "apart i k = (if i = k then 1 else 0)"

definition together :: "nat \<Rightarrow> nat \<Rightarrow> real" where
  "together i k = (if k = 0 then 1 else 0)"

definition everywhere :: "nat \<Rightarrow> nat \<Rightarrow> real" where
  "everywhere i k = 1"

definition nowhere :: "nat \<Rightarrow> nat \<Rightarrow> real" where
  "nowhere i k = 0"

text \<open>
  Solvers: one that reports the values \<open>x\<close> with the objective value \<open>v\<close> whatever the
  model is, and one that has no solution to report.
\<close>

definition answer :: "(nat \<Rightarrow> nat \<Rightarrow> real) \<Rightarrow> real \<Rightarrow> model \<Rightarrow> solution option" where
  "answer x v m = Some \<lparr>X = x, ObjVal = v\<rparr>"

definition no_answer :: "model \<Rightarrow> solution option" where
  "no_answer m = None"

text \<open>Ten teams at distance 0 of one another.\<close>

definition zeros10 :: "real list list" where
  "zeros10 = replicate 10 (replicate 10 0)"

text \<open>Four teams, each one unit away from every other.\<close>

definition ones4 :: "real list list" where
  "ones4 = [[0, 1, 1, 1], [1, 0, 1, 1], [1, 1, 0, 1], [1, 1, 1, 0]]"

text \<open>Teams 0 and 1 in group 0, teams 2 and 3 in group 1.\<close>

definition halves :: "nat \<Rightarrow> nat \<Rightarrow> real" where
  "halves i k = (if (i < 2 \<and> k = 0) \<or> (2 \<le> i \<and> k = 1) then 1 else 0)"

text \<open>Teams 0 and 2 in group 0, teams 1 and 3 in group 1.\<close>

definition alternate :: "nat \<Rightarrow> nat \<Rightarrow> real" where
  "alternate i k = (if ((i = 0 \<or> i = 2) \<and> k = 0) \<or> ((i = 1 \<or> i = 3) \<and> k = 1) then 1 else 0)"

text \<open>A symmetric, non-negative distance and a sequence of draws, to run \<open>example_matrix\<close> on.\<close>

definition taxicab :: "coord \<Rightarrow> coord \<Rightarrow> real" where
  "taxicab a b = real_of_int (\<bar>fst a - fst b\<bar> + \<bar>snd a - snd b\<bar>)"

definition diagonal_draw :: "nat \<Rightarrow> coord" where
  "diagonal_draw i = (48 + int i, 6 + int i)"

section \<open>Loops that do not raise\<close>

lemma for_each_append:
  "for_each (xs @ ys) body s = and_then (for_each xs body s) (for_each ys body)"
proof (induction xs arbitrary: s)
  case Nil
  show ?case by simp
next
  case (Cons x xs)
  show ?case by (cases "body x s") (simp_all add: Cons.IH)
qed

lemma for_each_pure:
  "(\<And>x s. x \<in> set xs \<Longrightarrow> body x s = Inr (f x s)) \<Longrightarrow> for_each xs body s = Inr (fold f xs s)"
  by (induction xs arbitrary: s) simp_all

lemma mem_add_vars: "(i, k) \<in> set (add_vars n) \<longleftrightarrow> i < n \<and> k < n"
  by (auto simp: add_vars_def image_iff)

lemma getvar_add_vars:
  "getvar (add_vars n) i k = (if i < n \<and> k < n then Inr (Var i k) else Inl KeyError)"
  by (simp add: getvar_def mem_add_vars)

lemma entry_square:
  "square matrix \<Longrightarrow> i < length matrix \<Longrightarrow> j < length matrix \<Longrightarrow> entry matrix i j = Inr (matrix ! i ! j)"
  by (simp add: entry_def get_def square_def list_all_length)

lemma eval_fold_Add:
  "eval x (fold (\<lambda>k su. Add su (t k)) ks e) = eval x e + (\<Sum>k\<leftarrow>ks. eval x (t k))"
  by (induction ks arbitrary: e) simp_all

lemma sum_list_zero: "(\<And>j. j \<in> set js \<Longrightarrow> g j = (0::real)) \<Longrightarrow> (\<Sum>j\<leftarrow>js. g j) = 0"
  by (induction js) simp_all

lemma sum_list_upper:
  "i < n \<Longrightarrow> (\<Sum>j\<leftarrow>[0..<n]. if j \<le> i then 0 else f j) = (\<Sum>j\<leftarrow>[Suc i..<n]. (f j :: real))"
proof -
  assume "i < n"
  then have split: "[0..<n] = [0..<Suc i] @ [Suc i..<n]"
    by (metis Suc_leI le0 upt_add_eq_append le_add_diff_inverse)
  have a: "(\<Sum>j\<leftarrow>[0..<Suc i]. if j \<le> i then 0 else f j) = 0"
    by (rule sum_list_zero) auto
  have b: "(\<Sum>j\<leftarrow>[Suc i..<n]. if j \<le> i then 0 else f j) = (\<Sum>j\<leftarrow>[Suc i..<n]. f j)"
    by (rule arg_cong[where f=sum_list]) auto
  have "(\<Sum>j\<leftarrow>[0..<n]. if j \<le> i then 0 else f j)
      = (\<Sum>j\<leftarrow>[0..<Suc i]. if j \<le> i then 0 else f j) + (\<Sum>j\<leftarrow>[Suc i..<n]. if j \<le> i then 0 else f j)"
    by (subst split) (simp only: map_append sum_list_append)
  then show ?thesis by (simp only: a b add_0)
qed

lemma fold_append_each: "fold (\<lambda>i cs. cs @ h i) xs cs0 = cs0 @ concat (map h xs)"
  by (induction xs arbitrary: cs0) simp_all

lemma fold_plus_each: "fold (\<lambda>k t. t + h k) ks t0 = (t0::real) + (\<Sum>k\<leftarrow>ks. h k)"
  by (induction ks arbitrary: t0) simp_all

lemma co_membership_ok:
  assumes "i < n" "j < n" "K \<le> n"
  shows "co_membership (add_vars n) K i j = Inr (co_expr K i j)"
  unfolding co_membership_def co_expr_def
  by (rule for_each_pure) (use assms in \<open>simp add: getvar_add_vars\<close>)

lemma objective_term_ok:
  assumes "square matrix" "i < length matrix" "j < length matrix" "K \<le> length matrix"
  shows "objective_term (add_vars (length matrix)) matrix K i j obj =
     Inr (if i \<ge> j then obj
          else Add obj (Mul (Sub (Num 1) (co_expr K i j)) (Num (2 * matrix ! i ! j + 2 * matrix ! j ! i))))"
  using assms by (simp add: objective_term_def co_membership_ok entry_square)

lemma build_objective_ok:
  assumes "square matrix" "K \<le> length matrix"
  shows "build_objective (add_vars (length matrix)) matrix K = Inr (obj_expr matrix K)"
  unfolding build_objective_def obj_expr_def Let_def
  by (rule for_each_pure, rule for_each_pure) (use assms in \<open>simp add: objective_term_ok\<close>)

lemma sum_loop_ok:
  assumes "\<And>x. x \<in> set xs \<Longrightarrow> getvar g (a x) (b x) = Inr (Var (a x) (b x))"
  shows "for_each xs (\<lambda>x su. and_then (getvar g (a x) (b x)) (\<lambda>v. Inr (Add su v))) e
       = Inr (fold (\<lambda>x su. Add su (Var (a x) (b x))) xs e)"
  by (rule for_each_pure) (simp add: assms)

lemma one_group_constrs_ok:
  assumes "K \<le> n"
  shows "one_group_constrs (add_vars n) n K cs
       = Inr (cs @ map (\<lambda>i. Constr (group_sum K i) Equal 1) [0..<n])"
proof -
  have body: "\<And>i cs. i \<in> set [0..<n] \<Longrightarrow>
      and_then (for_each [0..<K] (\<lambda>j su. and_then (getvar (add_vars n) i j) (\<lambda>v. Inr (Add su v))) (Num 0))
          (\<lambda>su. Inr (cs @ [Constr su Equal 1]))
      = Inr (cs @ [Constr (group_sum K i) Equal 1])"
    using assms by (subst sum_loop_ok) (simp_all add: getvar_add_vars group_sum_def)
  have "one_group_constrs (add_vars n) n K cs
      = Inr (fold (\<lambda>i cs. cs @ [Constr (group_sum K i) Equal 1]) [0..<n] cs)"
    unfolding one_group_constrs_def by (rule for_each_pure) (rule body)
  then show ?thesis by (simp add: fold_append_each)
qed

lemma size_constrs_ok:
  assumes "K \<le> n"
  shows "size_constrs (add_vars n) n K mn mx cs
       = Inr (cs @ concat (map (\<lambda>j. bounds_of (team_sum n j) mn mx) [0..<K]))"
proof -
  have body: "\<And>j cs. j \<in> set [0..<K] \<Longrightarrow>
      and_then (for_each [0..<n] (\<lambda>i su. and_then (getvar (add_vars n) i j) (\<lambda>v. Inr (Add su v))) (Num 0))
          (\<lambda>su. Inr (cs
             @ (case mn of None \<Rightarrow> [] | Some a \<Rightarrow> [Constr su GreaterEqual (of_int a)])
             @ (case mx of None \<Rightarrow> [] | Some b \<Rightarrow> [Constr su LessEqual (of_int b)])))
      = Inr (cs @ bounds_of (team_sum n j) mn mx)"
    using assms by (subst sum_loop_ok) (simp_all add: getvar_add_vars team_sum_def bounds_of_def)
  have "size_constrs (add_vars n) n K mn mx cs
      = Inr (fold (\<lambda>j cs. cs @ bounds_of (team_sum n j) mn mx) [0..<K] cs)"
    unfolding size_constrs_def by (rule for_each_pure) (rule body)
  then show ?thesis by (simp add: fold_append_each)
qed

lemma build_model_ok:
  assumes "square matrix" "K \<le> length matrix"
  shows "build_model matrix K mn mx =
     Inr \<lparr>vars = add_vars (length matrix), objective = obj_expr matrix K,
          constrs = constr_list (length matrix) K mn mx\<rparr>"
  using assms
  by (simp add: build_model_def Let_def build_objective_ok one_group_constrs_ok size_constrs_ok
      constr_list_def)

lemma eval_co_expr: "eval x (co_expr K i j) = (\<Sum>k\<leftarrow>[0..<K]. x i k * x j k)"
  by (simp add: co_expr_def eval_fold_Add)

lemma eval_group_sum: "eval x (group_sum K i) = (\<Sum>k\<leftarrow>[0..<K]. x i k)"
  by (simp add: group_sum_def eval_fold_Add)

lemma eval_team_sum: "eval x (team_sum n j) = (\<Sum>i\<leftarrow>[0..<n]. x i j)"
  by (simp add: team_sum_def eval_fold_Add)

lemma eval_fold_guarded:
  "eval x (fold (\<lambda>j obj. if c j then obj else Add obj (t j)) js e)
     = eval x e + (\<Sum>j\<leftarrow>js. if c j then 0 else eval x (t j))"
  by (induction js arbitrary: e) simp_all

lemma eval_fold_nested:
  "eval x (fold (\<lambda>i. fold (\<lambda>j obj. if c i j then obj else Add obj (t i j)) js) is e)
     = eval x e + (\<Sum>i\<leftarrow>is. \<Sum>j\<leftarrow>js. if c i j then 0 else eval x (t i j))"
  by (induction "is" arbitrary: e) (simp_all add: eval_fold_guarded)

lemma eval_obj_expr:
  "eval x (obj_expr matrix K) =
     (\<Sum>i\<leftarrow>[0..<length matrix]. \<Sum>j\<leftarrow>[Suc i..<length matrix].
        (1 - (\<Sum>k\<leftarrow>[0..<K]. x i k * x j k)) * (2 * matrix ! i ! j + 2 * matrix ! j ! i))"
proof -
  have "eval x (obj_expr matrix K) =
     (\<Sum>i\<leftarrow>[0..<length matrix]. \<Sum>j\<leftarrow>[0..<length matrix]. if j \<le> i then 0 else
        (1 - (\<Sum>k\<leftarrow>[0..<K]. x i k * x j k)) * (2 * matrix ! i ! j + 2 * matrix ! j ! i))"
    unfolding obj_expr_def by (simp add: eval_fold_nested eval_co_expr cong: if_cong)
  also have "\<dots> = (\<Sum>i\<leftarrow>[0..<length matrix]. \<Sum>j\<leftarrow>[Suc i..<length matrix].
        (1 - (\<Sum>k\<leftarrow>[0..<K]. x i k * x j k)) * (2 * matrix ! i ! j + 2 * matrix ! j ! i))"
    by (rule arg_cong[where f=sum_list], rule map_cong[OF refl]) (simp add: sum_list_upper)
  finally show ?thesis .
qed

section \<open>Decoding and recomputation\<close>

lemma read_X_ok:
  "i < n \<Longrightarrow> k < n \<Longrightarrow> read_X (add_vars n) (Some s) i k = Inr (X s i k)"
  by (simp add: read_X_def getvar_add_vars)

lemma read_X_none:
  "i < n \<Longrightarrow> k < n \<Longrightarrow> read_X (add_vars n) None i k = Inl AttributeError"
  by (simp add: read_X_def getvar_add_vars)

lemma assign_loop:
  assumes "i < n" "\<forall>k\<in>set ks. k < n" "i < length t"
  shows "for_each ks (\<lambda>k t.
        and_then (read_X (add_vars n) (Some s) i k) (\<lambda>x.
          if x > 1 / 2 then
            (if t ! i = None then Inr (t[i := Some k]) else Inl AssertionError)
          else Inr t)) t
     = (case filter (\<lambda>k. 1 / 2 < X s i k) ks of
          [] \<Rightarrow> Inr t
        | k # rest \<Rightarrow> if t ! i = None \<and> rest = [] then Inr (t[i := Some k]) else Inl AssertionError)"
  using assms(2,3)
proof (induction ks arbitrary: t)
  case Nil
  show ?case by simp
next
  case (Cons k ks)
  then have k: "k < n" and ks: "\<forall>k\<in>set ks. k < n" by simp_all
  have len: "i < length (t[i := Some k])" using Cons.prems by simp
  note IH1 = Cons.IH[OF ks Cons.prems(2)]
  note IH2 = Cons.IH[OF ks len]
  show ?case
  proof (cases "1 / 2 < X s i k")
    case False
    then show ?thesis using assms(1) k IH1 by (simp add: read_X_ok)
  next
    case True
    show ?thesis
    proof (cases "t ! i")
      case None
      then show ?thesis using True assms(1) k Cons.prems(2) IH2
        by (simp add: read_X_ok split: list.splits)
    next
      case (Some a)
      then show ?thesis using True assms(1) k by (simp add: read_X_ok)
    qed
  qed
qed

lemma assign_team_ok:
  assumes "i < n" "K \<le> n" "i < length t"
  shows "assign_team (add_vars n) (Some s) K i t
     = (case groups_above s K i of
          [] \<Rightarrow> Inr t
        | k # rest \<Rightarrow> if t ! i = None \<and> rest = [] then Inr (t[i := Some k]) else Inl AssertionError)"
  unfolding assign_team_def groups_above_def
  by (rule assign_loop) (use assms in auto)

lemma decode_prefix:
  assumes "K \<le> n" "m \<le> n"
  shows "for_each [0..<m] (assign_team (add_vars n) (Some s) K) (replicate n None)
     = (if \<exists>i<m. 2 \<le> length (groups_above s K i) then Inl AssertionError
        else Inr (map (\<lambda>i. if i < m then decoded s K i else None) [0..<n]))"
  using assms(2)
proof (induction m)
  case 0
  show ?case by (simp add: map_replicate_trivial)
next
  case (Suc m)
  then have m: "m < n" by simp
  let ?t = "map (\<lambda>i. if i < m then decoded s K i else None) [0..<n]"
  have IH: "for_each [0..<m] (assign_team (add_vars n) (Some s) K) (replicate n None)
     = (if \<exists>i<m. 2 \<le> length (groups_above s K i) then Inl AssertionError else Inr ?t)"
    using Suc by simp
  have tm: "?t ! m = None" "m < length ?t" using m by simp_all
  have upd: "?t[m := decoded s K m] = map (\<lambda>i. if i < Suc m then decoded s K i else None) [0..<n]"
    using m by (intro nth_equalityI) (auto simp: nth_list_update less_Suc_eq)
  have same: "decoded s K m = None \<Longrightarrow> ?t = map (\<lambda>i. if i < Suc m then decoded s K i else None) [0..<n]"
    using upd tm by (metis list_update_id)
  have step: "assign_team (add_vars n) (Some s) K m ?t
     = (if 2 \<le> length (groups_above s K m) then Inl AssertionError
        else Inr (map (\<lambda>i. if i < Suc m then decoded s K i else None) [0..<n]))"
  proof (cases "groups_above s K m")
    case Nil
    then show ?thesis using same by (simp add: assign_team_ok[OF m assms(1) tm(2)] decoded_def)
  next
    case (Cons k rest)
    then show ?thesis using upd tm(1)
      by (cases rest) (simp_all add: assign_team_ok[OF m assms(1) tm(2)] decoded_def)
  qed
  have ex: "(\<exists>i<Suc m. 2 \<le> length (groups_above s K i))
      \<longleftrightarrow> (\<exists>i<m. 2 \<le> length (groups_above s K i)) \<or> 2 \<le> length (groups_above s K m)"
    by (auto simp: less_Suc_eq)
  show ?case
    unfolding ex upt_Suc_append[OF le0] for_each_append IH
    using step by simp
qed

lemma decode_ok:
  assumes "K \<le> n"
  shows "decode (add_vars n) (Some s) n K
     = (if \<exists>i<n. 2 \<le> length (groups_above s K i) then Inl AssertionError
        else Inr (map (decoded s K) [0..<n]))"
proof -
  have "map (\<lambda>i. if i < n then decoded s K i else None) [0..<n] = map (decoded s K) [0..<n]"
    by (rule map_cong) simp_all
  then show ?thesis unfolding decode_def decode_prefix[OF assms le_refl] by simp
qed

lemma pair_cost_ok:
  assumes "square matrix" "i < length matrix" "j < length matrix" "K \<le> length matrix"
  shows "pair_cost (add_vars (length matrix)) (Some s) matrix K i j t0
     = Inr (t0 + (\<Sum>k\<leftarrow>[0..<K].
          if 1 / 2 < X s i k \<and> 1 / 2 < X s j k then matrix ! i ! j * 2 + matrix ! j ! i * 2 else 0))"
proof -
  have "pair_cost (add_vars (length matrix)) (Some s) matrix K i j t0
     = Inr (fold (\<lambda>k t. t + (if 1 / 2 < X s i k \<and> 1 / 2 < X s j k
                              then matrix ! i ! j * 2 + matrix ! j ! i * 2 else 0)) [0..<K] t0)"
    unfolding pair_cost_def
    by (rule for_each_pure) (use assms in \<open>simp add: read_X_ok entry_square\<close>)
  then show ?thesis by (simp only: fold_plus_each)
qed

lemma travel_cost_ok:
  assumes "square matrix" "K \<le> length matrix"
  shows "travel_cost (add_vars (length matrix)) (Some s) matrix K = Inr (travel_sum matrix s K)"
proof -
  let ?c = "\<lambda>i j. (\<Sum>k\<leftarrow>[0..<K].
          if 1 / 2 < X s i k \<and> 1 / 2 < X s j k then matrix ! i ! j * 2 + matrix ! j ! i * 2 else 0)"
  have inner: "\<And>i t. i \<in> set [0..<length matrix] \<Longrightarrow>
      for_each [Suc i..<length matrix] (\<lambda>j. pair_cost (add_vars (length matrix)) (Some s) matrix K i j) t
      = Inr (t + (\<Sum>j\<leftarrow>[Suc i..<length matrix]. ?c i j))"
  proof -
    fix i t assume i: "i \<in> set [0..<length matrix]"
    have "for_each [Suc i..<length matrix] (\<lambda>j. pair_cost (add_vars (length matrix)) (Some s) matrix K i j) t
      = Inr (fold (\<lambda>j t. t + ?c i j) [Suc i..<length matrix] t)"
      by (rule for_each_pure) (use i assms in \<open>simp add: pair_cost_ok\<close>)
    then show "for_each [Suc i..<length matrix] (\<lambda>j. pair_cost (add_vars (length matrix)) (Some s) matrix K i j) t
      = Inr (t + (\<Sum>j\<leftarrow>[Suc i..<length matrix]. ?c i j))"
      by (simp only: fold_plus_each)
  qed
  have "travel_cost (add_vars (length matrix)) (Some s) matrix K
      = Inr (fold (\<lambda>i t. t + (\<Sum>j\<leftarrow>[Suc i..<length matrix]. ?c i j)) [0..<length matrix] 0)"
    unfolding travel_cost_def Let_def by (rule for_each_pure) (rule inner)
  then show ?thesis by (simp only: fold_plus_each travel_sum_def add_0)
qed

lemma sum_both:
  assumes "filter P ks = [a]" "filter Q ks = [b]"
  shows "(\<Sum>k\<leftarrow>ks. if P k \<and> Q k then c else 0) = (if a = b then c else (0::real))"
proof -
  have "a \<in> set (filter P ks)" using assms(1) by simp
  then have a: "a \<in> set ks" by simp
  have "Q a \<longleftrightarrow> a \<in> set (filter Q ks)" using a by simp
  then have Qa: "Q a \<longleftrightarrow> a = b" unfolding assms(2) by simp
  have "(\<Sum>k\<leftarrow>ks. if P k \<and> Q k then c else 0) = (\<Sum>k\<leftarrow>ks. if P k then (if Q k then c else 0) else 0)"
    by (rule arg_cong[where f=sum_list]) simp
  also have "\<dots> = (\<Sum>k\<leftarrow>filter P ks. if Q k then c else 0)"
    by (simp only: sum_list_map_filter')
  also have "\<dots> = (if a = b then c else 0)"
    unfolding assms(1) using Qa by simp
  finally show ?thesis .
qed

lemma decoded_single: "groups_above s K i = [a] \<Longrightarrow> decoded s K i = Some a"
  by (simp add: decoded_def)

lemma length_one: "length xs = 1 \<Longrightarrow> \<exists>a. xs = [a]"
  by (cases xs) simp_all

lemma travel_sum_recompute:
  assumes "\<forall>i<length matrix. length (groups_above s K i) = 1"
  shows "travel_sum matrix s K = recompute matrix (map (decoded s K) [0..<length matrix])"
proof -
  have pair: "(\<Sum>k\<leftarrow>[0..<K]. if 1 / 2 < X s i k \<and> 1 / 2 < X s j k then matrix ! i ! j * 2 + matrix ! j ! i * 2 else 0)
      = (if map (decoded s K) [0..<length matrix] ! i = map (decoded s K) [0..<length matrix] ! j
         then 2 * matrix ! i ! j + 2 * matrix ! j ! i else 0)"
    if "i < length matrix" "j < length matrix" for i j
  proof -
    from assms that(1) have "length (groups_above s K i) = 1" by simp
    then obtain a where a: "groups_above s K i = [a]" using length_one by blast
    from assms that(2) have "length (groups_above s K j) = 1" by simp
    then obtain b where b: "groups_above s K j = [b]" using length_one by blast
    have "(\<Sum>k\<leftarrow>[0..<K]. if 1 / 2 < X s i k \<and> 1 / 2 < X s j k then matrix ! i ! j * 2 + matrix ! j ! i * 2 else 0)
       = (if a = b then matrix ! i ! j * 2 + matrix ! j ! i * 2 else 0)"
      by (rule sum_both) (use a b in \<open>simp_all only: groups_above_def\<close>)
    then show ?thesis using that by (simp add: decoded_single[OF a] decoded_single[OF b])
  qed
  show ?thesis
    unfolding travel_sum_def recompute_def
    by (intro arg_cong[where f=sum_list] map_cong refl) (rule pair, simp_all)
qed

lemma and_then_Inr: "and_then r f = Inr y \<longleftrightarrow> (\<exists>a. r = Inr a \<and> f a = Inr y)"
  by (cases r) simp_all

lemma build_model_vars: "build_model matrix K mn mx = Inr m \<Longrightarrow> vars m = add_vars (length matrix)"
  by (auto simp: build_model_def Let_def and_then_Inr)

lemma optimize_ab_some:
  assumes "square matrix" "K \<le> length matrix"
    and "build_model matrix K mn mx = Inr m" "solver m = Some s"
  shows "optimize_ab solver matrix K mn mx
     = (if \<exists>i<length matrix. 2 \<le> length (groups_above s K i) then Inl AssertionError
        else Inr (map (decoded s K) [0..<length matrix], travel_sum matrix s K))"
  using assms(3,4) build_model_vars[OF assms(3)]
  by (simp add: optimize_ab_def decode_ok[OF assms(2)] travel_cost_ok[OF assms(1,2)])

lemma optimize_ab_none:
  assumes "build_model matrix K mn mx = Inr m" "solver m = None" "1 \<le> K" "K \<le> length matrix"
  shows "optimize_ab solver matrix K mn mx = Inl AttributeError"
proof -
  let ?n = "length matrix"
  have n: "0 < ?n" and K: "0 < K" using assms(3,4) by arith+
  have "assign_team (add_vars ?n) None K 0 t = Inl AttributeError" for t
    unfolding assign_team_def upt_conv_Cons[OF K] using n by (simp add: read_X_none)
  then have "decode (add_vars ?n) None ?n K = Inl AttributeError"
    unfolding decode_def upt_conv_Cons[OF n] by simp
  then show ?thesis
    using assms(1,2) build_model_vars[OF assms(1)] by (simp add: optimize_ab_def)
qed

section \<open>Results\<close>

lemma square_cost2: "square cost2"
  by (simp add: square_def cost2_def)

lemma spec_objective_double:
  "(\<Sum>i\<leftarrow>[0..<length matrix]. \<Sum>j\<leftarrow>[Suc i..<length matrix].
        (1 - (\<Sum>k\<leftarrow>[0..<K]. x i k * x j k)) * (2 * matrix ! i ! j + 2 * matrix ! j ! i))
   = 2 * spec_objective matrix K x"
  unfolding spec_objective_def sum_list_const_mult[symmetric]
  by (intro arg_cong[where f=sum_list] map_cong refl) (simp add: algebra_simps)

text \<open>
  C1, as stated, fails: for two teams one unit apart, placed in different groups, the
  objective of the model is 4 where the formula of the specification gives 2.
\<close>

theorem objective_coefficient_counterexample:
  "objective_value cost2 2 None None apart = Inr 4 \<and> spec_objective cost2 2 apart = 2"
proof -
  have "build_model cost2 2 None None =
     Inr \<lparr>vars = add_vars (length cost2), objective = obj_expr cost2 2,
          constrs = constr_list (length cost2) 2 None None\<rparr>"
    by (rule build_model_ok[OF square_cost2]) (simp add: cost2_def)
  then have "objective_value cost2 2 None None apart
     = Inr (\<Sum>i\<leftarrow>[0..<length cost2]. \<Sum>j\<leftarrow>[Suc i..<length cost2].
        (1 - (\<Sum>k\<leftarrow>[0..<2]. apart i k * apart j k)) * (2 * cost2 ! i ! j + 2 * cost2 ! j ! i))"
    by (simp add: objective_value_def eval_obj_expr)
  also have "\<dots> = Inr 4"
    by (simp add: cost2_def apart_def eval_nat_numeral)
  finally have a: "objective_value cost2 2 None None apart = Inr 4" .
  have b: "spec_objective cost2 2 apart = 2"
    by (simp add: spec_objective_def cost2_def apart_def eval_nat_numeral)
  from a b show ?thesis by simp
qed

text \<open>
  C1, amended: the model built by \<^verbatim>\<open>optimize_ab\<close> maximises the sum over all pairs
  \<open>i < j\<close> of \<open>(1 - \<Sum>k. x[i,k] \<sqdot> x[j,k]) \<sqdot> (2 \<sqdot> cost[i][j] + 2 \<sqdot> cost[j][i])\<close>: the
  coefficient of a pair is twice \<open>cost[i][j] + cost[j][i]\<close>, and the objective is twice
  the one the specification states.
\<close>

theorem objective_coefficient_doubled:
  assumes "square matrix" "1 \<le> K" "K \<le> length matrix"
  shows "objective_value matrix K mn mx x =
           Inr (\<Sum>i\<leftarrow>[0..<length matrix]. \<Sum>j\<leftarrow>[Suc i..<length matrix].
                  (1 - (\<Sum>k\<leftarrow>[0..<K]. x i k * x j k)) * (2 * matrix ! i ! j + 2 * matrix ! j ! i))
       \<and> objective_value matrix K mn mx x = Inr (2 * spec_objective matrix K x)"
proof -
  have "objective_value matrix K mn mx x = Inr (eval x (obj_expr matrix K))"
    by (simp add: objective_value_def build_model_ok[OF assms(1,3)])
  then show ?thesis
    by (simp only: eval_obj_expr spec_objective_double simp_thms)
qed

text \<open>The amended C1 at two teams that share group 0.\<close>

theorem objective_coefficient_doubled_witness:
  "square cost2 \<and> (1::nat) \<le> 2 \<and> 2 \<le> length cost2
     \<and> objective_value cost2 2 (Some 1) (Some 1) together = Inr (2 * spec_objective cost2 2 together)
     \<and> spec_objective cost2 2 together = 0"
proof -
  have h2: "(1::nat) \<le> 2" by simp
  have h3: "2 \<le> length cost2" by (simp add: cost2_def)
  have v: "spec_objective cost2 2 together = 0"
    by (simp add: spec_objective_def cost2_def together_def eval_nat_numeral)
  from objective_coefficient_doubled[OF square_cost2 h2 h3, of "Some 1" "Some 1" together]
  have "objective_value cost2 2 (Some 1) (Some 1) together = Inr (2 * spec_objective cost2 2 together)"
    by (rule conjunct2)
  with square_cost2 h2 h3 v show ?thesis by (intro conjI)
qed

lemma groups_above_less: "k \<in> set (groups_above s K i) \<Longrightarrow> k < K"
  by (simp add: groups_above_def)

lemma optimize_ab_answer:
  assumes "square matrix" "K \<le> length matrix"
  shows "optimize_ab (answer x v) matrix K mn mx
     = (if \<exists>i<length matrix. 2 \<le> length (groups_above \<lparr>X = x, ObjVal = v\<rparr> K i) then Inl AssertionError
        else Inr (map (decoded \<lparr>X = x, ObjVal = v\<rparr> K) [0..<length matrix],
                  travel_sum matrix \<lparr>X = x, ObjVal = v\<rparr> K))"
  by (rule optimize_ab_some[where solver="answer x v", OF assms build_model_ok[OF assms]])
    (simp add: answer_def)

lemma groups_above_X:
  "groups_above \<lparr>X = X s, ObjVal = v\<rparr> K i = groups_above s K i"
  by (simp add: groups_above_def)

lemma decoded_X: "decoded \<lparr>X = X s, ObjVal = v\<rparr> K = decoded s K"
  by (rule ext) (simp add: decoded_def groups_above_X)

lemma travel_sum_X: "travel_sum matrix \<lparr>X = X s, ObjVal = v\<rparr> K = travel_sum matrix s K"
  by (simp add: travel_sum_def)

text \<open>
  C2: when every team has exactly one group above the threshold, the total cost that
  \<^verbatim>\<open>optimize_ab\<close> returns is the recomputation over the cost matrix, the sum of
  \<open>2 \<sqdot> cost[i][j] + 2 \<sqdot> cost[j][i]\<close> over the pairs \<open>i < j\<close> with equal decoded
  groups, and it is the same whatever objective value \<open>v\<close> the solver reports.
\<close>

theorem total_cost_recomputed:
  assumes "square matrix" "1 \<le> K" "K \<le> length matrix"
    and "build_model matrix K mn mx = Inr m" "solver m = Some s"
    and "\<forall>i<length matrix. length (groups_above s K i) = 1"
  shows "\<exists>t2g. optimize_ab solver matrix K mn mx = Inr (t2g, recompute matrix t2g)
           \<and> length t2g = length matrix
           \<and> (\<forall>i<length matrix. \<exists>k<K. t2g ! i = Some k \<and> groups_above s K i = [k])
           \<and> optimize_ab (answer (X s) v) matrix K mn mx = Inr (t2g, recompute matrix t2g)"
proof -
  let ?t = "map (decoded s K) [0..<length matrix]"
  have none: "\<not> (\<exists>i<length matrix. 2 \<le> length (groups_above s K i))"
    using assms(6) by auto
  have ts: "travel_sum matrix s K = recompute matrix ?t"
    by (rule travel_sum_recompute[OF assms(6)])
  have a: "optimize_ab solver matrix K mn mx = Inr (?t, recompute matrix ?t)"
    using optimize_ab_some[where solver=solver and m=m, OF assms(1,3,4,5)] none ts by simp
  have b: "optimize_ab (answer (X s) v) matrix K mn mx = Inr (?t, recompute matrix ?t)"
    using optimize_ab_answer[OF assms(1,3), of "X s" v mn mx] none ts
    by (simp add: groups_above_X decoded_X travel_sum_X)
  have c: "\<exists>k<K. ?t ! i = Some k \<and> groups_above s K i = [k]" if "i < length matrix" for i
  proof -
    from assms(6) that have "length (groups_above s K i) = 1" by simp
    then obtain k where k: "groups_above s K i = [k]" using length_one by blast
    then have "k \<in> set (groups_above s K i)" by simp
    then have "k < K" by (rule groups_above_less)
    then show ?thesis using k that by (auto simp: decoded_single)
  qed
  from a b c show ?thesis by (intro exI[of _ ?t]) simp
qed

lemma list2: "length xs = 2 \<Longrightarrow> xs = [xs ! 0, xs ! 1]"
  by (cases xs; cases "tl xs") auto

text \<open>C2 at two teams that share group 0, with a reported objective value of 7.\<close>

theorem total_cost_recomputed_witness:
  "optimize_ab (answer together 7) cost2 2 None None = Inr ([Some 0, Some 0], 4)"
proof -
  let ?s = "\<lparr>X = together, ObjVal = 7\<rparr>"
  have h2: "(1::nat) \<le> 2" by simp
  have h3: "2 \<le> length cost2" by (simp add: cost2_def)
  let ?m = "\<lparr>vars = add_vars (length cost2), objective = obj_expr cost2 2,
          constrs = constr_list (length cost2) 2 None None\<rparr>"
  have h4: "build_model cost2 2 None None = Inr ?m"
    by (rule build_model_ok[OF square_cost2 h3])
  have h5: "answer together 7 ?m = Some ?s"
    by (simp add: answer_def)
  have g: "groups_above ?s 2 i = [0]" for i
    by (simp add: groups_above_def together_def eval_nat_numeral)
  have h6: "\<forall>i<length cost2. length (groups_above ?s 2 i) = 1"
    by (simp add: g)
  from total_cost_recomputed[where solver="answer together 7" and m="?m", OF square_cost2 h2 h3 h4 h5 h6]
  obtain t2g where r: "optimize_ab (answer together 7) cost2 2 None None = Inr (t2g, recompute cost2 t2g)"
    and len: "length t2g = length cost2"
    and el: "\<forall>i<length cost2. \<exists>k<2. t2g ! i = Some k \<and> groups_above ?s 2 i = [k]"
    by blast
  have "t2g ! 0 = Some 0" "t2g ! 1 = Some 0"
    using el by (auto simp: g cost2_def)
  moreover have "length t2g = 2" using len by (simp add: cost2_def)
  ultimately have t: "t2g = [Some 0, Some 0]" using list2 by metis
  have "recompute cost2 [Some 0, Some 0] = 4"
    by (simp add: recompute_def cost2_def)
  with r t show ?thesis by simp
qed

lemma square_zeros10: "square zeros10"
  by (simp add: square_def zeros10_def list_all_iff)

lemma length_zeros10: "length zeros10 = 10"
  by (simp add: zeros10_def)

lemma groups_above_together: "0 < K \<Longrightarrow> groups_above \<lparr>X = together, ObjVal = v\<rparr> K i = [0]"
proof -
  assume K: "0 < K"
  have "filter (\<lambda>k. k = 0) [Suc 0..<K] = []" by (simp add: filter_empty_conv)
  then show ?thesis
    unfolding groups_above_def upt_conv_Cons[OF K] by (simp add: together_def)
qed

lemma travel_sum_zeros10: "travel_sum zeros10 s K = 0"
  unfolding travel_sum_def length_zeros10
  by (intro sum_list_zero) (simp add: zeros10_def)

text \<open>
  C3, as stated, fails: with 10 teams, 3 groups and a minimum size of 4 the call does not
  fail before the solver runs. Its outcome is the solver's: the AttributeError of reading
  \<^verbatim>\<open>X\<close> when the solver has no solution, and a returned result when the solver reports
  values.
\<close>

theorem infeasible_spec_counterexample:
  "optimize_ab no_answer zeros10 3 (Some 4) None = Inl AttributeError
   \<and> optimize_ab (answer together 0) zeros10 3 (Some 4) None = Inr (replicate 10 (Some 0), 0)"
proof -
  have K: "3 \<le> length zeros10" by (simp add: length_zeros10)
  have a: "optimize_ab no_answer zeros10 3 (Some 4) None = Inl AttributeError"
    by (rule optimize_ab_none[where solver=no_answer, OF build_model_ok[OF square_zeros10 K]])
      (simp_all add: no_answer_def length_zeros10)
  have "decoded \<lparr>X = together, ObjVal = 0\<rparr> 3 = (\<lambda>i. Some 0)"
    by (rule ext) (simp add: decoded_def groups_above_together)
  then have d: "map (decoded \<lparr>X = together, ObjVal = 0\<rparr> 3) [0..<10] = replicate 10 (Some 0)"
    by (simp add: map_replicate_const)
  have b: "optimize_ab (answer together 0) zeros10 3 (Some 4) None = Inr (replicate 10 (Some 0), 0)"
    unfolding optimize_ab_answer[OF square_zeros10 K] length_zeros10 d
    by (simp add: groups_above_together travel_sum_zeros10)
  from a b show ?thesis by simp
qed

text \<open>
  C3, amended: \<^verbatim>\<open>optimize_ab\<close> checks no size bound before solving. For a square matrix
  and \<open>1 \<le> K \<le> N\<close> the model is built without an error whatever the bounds are and
  is given to the solver. When the solver has no solution the call fails with the
  AttributeError of reading \<^verbatim>\<open>X\<close>; when it reports values the call returns a result or
  fails on the assertion of the decoding loop.
\<close>

theorem solver_called_whatever_the_bounds:
  assumes "square matrix" "1 \<le> K" "K \<le> length matrix"
  shows "\<exists>m. build_model matrix K mn mx = Inr m
           \<and> (solver m = None \<longrightarrow> optimize_ab solver matrix K mn mx = Inl AttributeError)
           \<and> (\<forall>s. solver m = Some s \<longrightarrow>
                 optimize_ab solver matrix K mn mx = Inl AssertionError
               \<or> (\<exists>r. optimize_ab solver matrix K mn mx = Inr r))"
proof -
  let ?m = "\<lparr>vars = add_vars (length matrix), objective = obj_expr matrix K,
          constrs = constr_list (length matrix) K mn mx\<rparr>"
  have b: "build_model matrix K mn mx = Inr ?m"
    by (rule build_model_ok[OF assms(1,3)])
  have n: "solver ?m = None \<Longrightarrow> optimize_ab solver matrix K mn mx = Inl AttributeError"
    by (rule optimize_ab_none[where solver=solver, OF b _ assms(2,3)])
  have s: "optimize_ab solver matrix K mn mx = Inl AssertionError
      \<or> (\<exists>r. optimize_ab solver matrix K mn mx = Inr r)"
    if "solver ?m = Some s" for s
    unfolding optimize_ab_some[where solver=solver, OF assms(1,3) b that] by simp
  show ?thesis
    by (intro exI[of _ ?m] conjI impI allI) (rule b, erule n, erule s)
qed

text \<open>
  The amended C3 at two teams, two groups, a minimum size of 2 and a maximum size of 1,
  with a solver that has no solution and with one that reports values.
\<close>

theorem solver_called_whatever_the_bounds_witness:
  "optimize_ab no_answer cost2 2 (Some 2) (Some 1) = Inl AttributeError
   \<and> (optimize_ab (answer together 0) cost2 2 (Some 2) (Some 1) = Inl AssertionError
      \<or> (\<exists>r. optimize_ab (answer together 0) cost2 2 (Some 2) (Some 1) = Inr r))"
proof -
  have h2: "(1::nat) \<le> 2" by simp
  have h3: "2 \<le> length cost2" by (simp add: cost2_def)
  from solver_called_whatever_the_bounds[where solver=no_answer, OF square_cost2 h2 h3, of "Some 2" "Some 1"]
  have a: "optimize_ab no_answer cost2 2 (Some 2) (Some 1) = Inl AttributeError"
    by (auto simp: no_answer_def)
  from solver_called_whatever_the_bounds[where solver="answer together 0", OF square_cost2 h2 h3,
      of "Some 2" "Some 1"]
  have b: "optimize_ab (answer together 0) cost2 2 (Some 2) (Some 1) = Inl AssertionError
      \<or> (\<exists>r. optimize_ab (answer together 0) cost2 2 (Some 2) (Some 1) = Inr r)"
    by (auto simp: answer_def)
  from a b show ?thesis by (rule conjI)
qed

text \<open>
  C4, as stated, fails: when no value of the single team exceeds 0.5 the call returns a
  result in which the team has no group.
\<close>

theorem unassigned_team_counterexample:
  "optimize_ab (answer nowhere 0) [[0]] 1 None None = Inr ([None], 0)"
proof -
  have sq: "square [[0]]" by (simp add: square_def)
  have K: "1 \<le> length [[0::real]]" by simp
  have g: "groups_above \<lparr>X = nowhere, ObjVal = 0\<rparr> K i = []" for K i
    by (simp add: groups_above_def nowhere_def)
  show ?thesis
    unfolding optimize_ab_answer[OF sq K]
    by (simp add: g decoded_def travel_sum_def)
qed

text \<open>
  C4, amended: when more than one \<open>k\<close> has \<open>x[i,k] > 0.5\<close> for some team, the extraction
  fails with an AssertionError. Otherwise a result is returned: a team is assigned group
  \<open>k\<close> when \<open>x[i,k] > 0.5\<close> for exactly that \<open>k\<close>, and a team with no such \<open>k\<close> is left
  without a group.
\<close>

theorem several_groups_raise:
  assumes "square matrix" "1 \<le> K" "K \<le> length matrix"
    and "build_model matrix K mn mx = Inr m" "solver m = Some s"
  shows "((\<exists>i<length matrix. 2 \<le> length (groups_above s K i)) \<longrightarrow>
            optimize_ab solver matrix K mn mx = Inl AssertionError)
       \<and> ((\<forall>i<length matrix. length (groups_above s K i) \<le> 1) \<longrightarrow>
            (\<exists>t2g total. optimize_ab solver matrix K mn mx = Inr (t2g, total)
               \<and> length t2g = length matrix
               \<and> (\<forall>i<length matrix.
                     (groups_above s K i = [] \<longrightarrow> t2g ! i = None)
                   \<and> (\<forall>k. groups_above s K i = [k] \<longrightarrow> t2g ! i = Some k))))"
proof (intro conjI impI)
  assume "\<exists>i<length matrix. 2 \<le> length (groups_above s K i)"
  then show "optimize_ab solver matrix K mn mx = Inl AssertionError"
    using optimize_ab_some[where solver=solver and m=m, OF assms(1,3,4,5)] by simp
next
  let ?t = "map (decoded s K) [0..<length matrix]"
  assume "\<forall>i<length matrix. length (groups_above s K i) \<le> 1"
  then have "\<not> (\<exists>i<length matrix. 2 \<le> length (groups_above s K i))" by auto
  then have r: "optimize_ab solver matrix K mn mx = Inr (?t, travel_sum matrix s K)"
    using optimize_ab_some[where solver=solver and m=m, OF assms(1,3,4,5)] by simp
  have e: "\<forall>i<length matrix.
             (groups_above s K i = [] \<longrightarrow> ?t ! i = None)
           \<and> (\<forall>k. groups_above s K i = [k] \<longrightarrow> ?t ! i = Some k)"
    by (simp add: decoded_def)
  show "\<exists>t2g total. optimize_ab solver matrix K mn mx = Inr (t2g, total)
               \<and> length t2g = length matrix
               \<and> (\<forall>i<length matrix.
                     (groups_above s K i = [] \<longrightarrow> t2g ! i = None)
                   \<and> (\<forall>k. groups_above s K i = [k] \<longrightarrow> t2g ! i = Some k))"
    by (intro exI[of _ ?t] exI[of _ "travel_sum matrix s K"] conjI r e) simp
qed

text \<open>
  The amended C4 at two teams that each exceed the threshold in both groups, and at two
  teams that exceed it in none.
\<close>

theorem several_groups_raise_witness:
  "optimize_ab (answer everywhere 0) cost2 2 None None = Inl AssertionError
   \<and> (\<exists>c. optimize_ab (answer nowhere 0) cost2 2 None None = Inr ([None, None], c))"
proof -
  let ?s = "\<lparr>X = everywhere, ObjVal = 0\<rparr>"
  let ?z = "\<lparr>X = nowhere, ObjVal = 0\<rparr>"
  let ?m = "\<lparr>vars = add_vars (length cost2), objective = obj_expr cost2 2,
          constrs = constr_list (length cost2) 2 None None\<rparr>"
  have h2: "(1::nat) \<le> 2" by simp
  have h3: "2 \<le> length cost2" by (simp add: cost2_def)
  have h4: "build_model cost2 2 None None = Inr ?m"
    by (rule build_model_ok[OF square_cost2 h3])
  have h5: "answer everywhere 0 ?m = Some ?s" by (simp add: answer_def)
  have h5': "answer nowhere 0 ?m = Some ?z" by (simp add: answer_def)
  have "groups_above ?s 2 0 = [0, 1]"
    by (simp add: groups_above_def everywhere_def eval_nat_numeral)
  then have two: "\<exists>i<length cost2. 2 \<le> length (groups_above ?s 2 i)"
    by (intro exI[of _ 0]) (simp add: cost2_def)
  from several_groups_raise[where solver="answer everywhere 0" and m="?m",
      OF square_cost2 h2 h3 h4 h5]
  have "(\<exists>i<length cost2. 2 \<le> length (groups_above ?s 2 i)) \<longrightarrow>
            optimize_ab (answer everywhere 0) cost2 2 None None = Inl AssertionError"
    by (rule conjunct1)
  with two have a: "optimize_ab (answer everywhere 0) cost2 2 None None = Inl AssertionError"
    by (rule rev_mp)
  have g: "groups_above ?z 2 i = []" for i
    by (simp add: groups_above_def nowhere_def)
  then have most: "\<forall>i<length cost2. length (groups_above ?z 2 i) \<le> 1" by simp
  from several_groups_raise[where solver="answer nowhere 0" and m="?m",
      OF square_cost2 h2 h3 h4 h5'] most
  obtain t2g c where r: "optimize_ab (answer nowhere 0) cost2 2 None None = Inr (t2g, c)"
    and len: "length t2g = length cost2"
    and el: "\<forall>i<length cost2. (groups_above ?z 2 i = [] \<longrightarrow> t2g ! i = None)
                   \<and> (\<forall>k. groups_above ?z 2 i = [k] \<longrightarrow> t2g ! i = Some k)"
    by blast
  have "t2g ! 0 = None" "t2g ! 1 = None"
    using el by (auto simp: g cost2_def)
  moreover have "length t2g = 2" using len by (simp add: cost2_def)
  ultimately have "t2g = [None, None]" using list2 by metis
  with r have b: "\<exists>c. optimize_ab (answer nowhere 0) cost2 2 None None = Inr ([None, None], c)"
    by blast
  from a b show ?thesis by (rule conjI)
qed

text \<open>
  C5, as stated, fails: with a maximum size of 1 and values that put both teams in group
  0, the call returns the result.
\<close>

theorem size_bounds_counterexample:
  "optimize_ab (answer together 0) cost2 2 None (Some 1) = Inr ([Some 0, Some 0], 4)"
proof -
  have K: "2 \<le> length cost2" by (simp add: cost2_def)
  have t: "travel_sum cost2 \<lparr>X = together, ObjVal = 0\<rparr> 2 = 4"
    by (simp add: travel_sum_def cost2_def together_def eval_nat_numeral)
  have l: "length cost2 = 2" by (simp add: cost2_def)
  show ?thesis
    unfolding optimize_ab_answer[OF square_cost2 K] t l
    by (simp add: groups_above_together decoded_def eval_nat_numeral)
qed

lemma feasible_bounds:
  assumes "feasible \<lparr>vars = g, objective = obj, constrs = constr_list n K mn mx\<rparr> x" "k < K"
  shows "(\<forall>a. mn = Some a \<longrightarrow> of_int a \<le> (\<Sum>i\<leftarrow>[0..<n]. x i k))
       \<and> (\<forall>b. mx = Some b \<longrightarrow> (\<Sum>i\<leftarrow>[0..<n]. x i k) \<le> of_int b)"
proof -
  have "list_all (holds x) (bounds_of (team_sum n k) mn mx)"
    using assms by (auto simp: feasible_def constr_list_def list_all_iff)
  then show ?thesis
    by (auto simp: bounds_of_def eval_team_sum)
qed

text \<open>
  C5, amended: the size bounds are only constraints of the model given to the solver (any
  assignment that is feasible for the model has every group size within the bounds that
  are set); after decoding nothing is checked, and the result is the one the same values
  give with no bounds set.
\<close>

theorem sizes_left_to_the_solver:
  assumes "square matrix" "1 \<le> K" "K \<le> length matrix"
    and "build_model matrix K mn mx = Inr m" "solver m = Some s"
  shows "optimize_ab solver matrix K mn mx = optimize_ab (answer (X s) (ObjVal s)) matrix K None None
       \<and> (\<forall>x. feasible m x \<longrightarrow> (\<forall>k<K.
             (\<forall>a. mn = Some a \<longrightarrow> of_int a \<le> (\<Sum>i\<leftarrow>[0..<length matrix]. x i k))
           \<and> (\<forall>b. mx = Some b \<longrightarrow> (\<Sum>i\<leftarrow>[0..<length matrix]. x i k) \<le> of_int b)))"
proof -
  have m: "m = \<lparr>vars = add_vars (length matrix), objective = obj_expr matrix K,
          constrs = constr_list (length matrix) K mn mx\<rparr>"
    using assms(4) build_model_ok[OF assms(1,3), of mn mx] by simp
  have a: "optimize_ab solver matrix K mn mx = optimize_ab (answer (X s) (ObjVal s)) matrix K None None"
    unfolding optimize_ab_some[where solver=solver, OF assms(1,3,4,5)]
      optimize_ab_answer[OF assms(1,3)]
    by (simp add: groups_above_X decoded_X travel_sum_X)
  show ?thesis
    unfolding m using a feasible_bounds by (intro conjI allI impI) (simp_all add: m)
qed

text \<open>
  The amended C5 at two teams in two groups of size exactly 1.
\<close>

theorem sizes_left_to_the_solver_witness:
  "optimize_ab (answer apart 4) cost2 2 (Some 1) (Some 1)
     = optimize_ab (answer apart 4) cost2 2 None None
   \<and> 1 \<le> (\<Sum>i\<leftarrow>[0..<length cost2]. apart i 0)
   \<and> (\<Sum>i\<leftarrow>[0..<length cost2]. apart i 0) \<le> 1"
proof -
  let ?s = "\<lparr>X = apart, ObjVal = 4\<rparr>"
  let ?m = "\<lparr>vars = add_vars (length cost2), objective = obj_expr cost2 2,
          constrs = constr_list (length cost2) 2 (Some 1) (Some 1)\<rparr>"
  have l: "length cost2 = 2" by (simp add: cost2_def)
  have h2: "(1::nat) \<le> 2" by simp
  have h3: "2 \<le> length cost2" by (simp add: cost2_def)
  have h4: "build_model cost2 2 (Some 1) (Some 1) = Inr ?m"
    by (rule build_model_ok[OF square_cost2 h3])
  have h5: "answer apart 4 ?m = Some ?s" by (simp add: answer_def)
  have f: "feasible ?m apart"
    by (simp add: feasible_def l add_vars_def constr_list_def group_sum_def team_sum_def
        bounds_of_def apart_def eval_nat_numeral)
  note claim = sizes_left_to_the_solver[where solver="answer apart 4" and m="?m",
      OF square_cost2 h2 h3 h4 h5]
  from claim have a: "optimize_ab (answer apart 4) cost2 2 (Some 1) (Some 1)
     = optimize_ab (answer apart 4) cost2 2 None None" by simp
  from claim f have "\<forall>k<2. (\<forall>a. Some 1 = Some a \<longrightarrow> of_int a \<le> (\<Sum>i\<leftarrow>[0..<length cost2]. apart i k))
           \<and> (\<forall>b. Some 1 = Some b \<longrightarrow> (\<Sum>i\<leftarrow>[0..<length cost2]. apart i k) \<le> of_int b)"
    by blast
  then have b: "1 \<le> (\<Sum>i\<leftarrow>[0..<length cost2]. apart i 0)
      \<and> (\<Sum>i\<leftarrow>[0..<length cost2]. apart i 0) \<le> 1"
    by auto
  from a b show ?thesis by simp
qed

lemma sum_binary:
  "(\<forall>k\<in>set ks. x k = 0 \<or> x k = (1::real))
     \<Longrightarrow> (\<Sum>k\<leftarrow>ks. x k) = real (length (filter (\<lambda>k. 1 / 2 < x k) ks))"
  by (induction ks) auto

lemma feasible_exactly_one:
  assumes "feasible m x" "vars m = add_vars n" "constrs m = constr_list n K mn mx"
    and "K \<le> n" "i < n"
  shows "length (filter (\<lambda>k. 1 / 2 < x i k) [0..<K]) = 1"
proof -
  have bin: "\<forall>k\<in>set [0..<K]. x i k = 0 \<or> x i k = 1"
  proof
    fix k assume "k \<in> set [0..<K]"
    then have "(i, k) \<in> set (vars m)" using assms(2,4,5) by (simp add: mem_add_vars)
    then show "x i k = 0 \<or> x i k = 1"
      using assms(1) by (auto simp: feasible_def list_all_iff)
  qed
  have "Constr (group_sum K i) Equal 1 \<in> set (constrs m)"
    using assms(3,5) by (simp add: constr_list_def)
  moreover have "\<forall>c\<in>set (constrs m). holds x c"
    using assms(1) by (simp add: feasible_def list_all_iff)
  ultimately have "holds x (Constr (group_sum K i) Equal 1)" by blast
  then have "(\<Sum>k\<leftarrow>[0..<K]. x i k) = 1" by (simp add: eval_group_sum)
  then have "real (length (filter (\<lambda>k. 1 / 2 < x i k) [0..<K])) = 1"
    using sum_binary[OF bin] by simp
  then show ?thesis by simp
qed

lemma build_model_constrs:
  assumes "build_model matrix K mn mx = Inr m" "K \<le> length matrix"
  shows "constrs m = constr_list (length matrix) K mn mx"
  using assms
  by (auto simp: build_model_def Let_def and_then_Inr one_group_constrs_ok size_constrs_ok
      constr_list_def)

lemma one_group_constrs_fails:
  assumes "0 < n" "n < K"
  shows "one_group_constrs (add_vars n) n K cs = Inl KeyError"
proof -
  have "[0..<K] = [0..<n] @ [n..<K]"
    using assms(2) by (metis le0 less_imp_le_nat upt_add_eq_append le_add_diff_inverse)
  then have split: "[0..<K] = [0..<n] @ n # [Suc n..<K]"
    by (simp only: upt_conv_Cons[OF assms(2)])
  have "for_each [0..<K] (\<lambda>j su. and_then (getvar (add_vars n) 0 j) (\<lambda>v. Inr (Add su v))) (Num 0)
      = Inl KeyError"
    unfolding split for_each_append
    by (subst sum_loop_ok) (use assms(1) in \<open>simp_all add: getvar_add_vars\<close>)
  then show ?thesis
    unfolding one_group_constrs_def upt_conv_Cons[OF assms(1)] by simp
qed

lemma build_model_Inr_groups:
  assumes "build_model matrix K mn mx = Inr m" "0 < length matrix"
  shows "K \<le> length matrix"
proof (rule ccontr)
  assume "\<not> K \<le> length matrix"
  then have "one_group_constrs (add_vars (length matrix)) (length matrix) K [] = Inl KeyError"
    using assms(2) by (intro one_group_constrs_fails) simp_all
  then show False
    using assms(1) by (auto simp: build_model_def Let_def and_then_Inr)
qed

lemma feasible_groups_above:
  assumes "build_model matrix K mn mx = Inr m" "feasible m (X s)" "i < length matrix"
  shows "\<exists>k<K. groups_above s K i = [k]"
proof -
  have n: "0 < length matrix" by (rule order.strict_trans1[OF le0 assms(3)])
  have K: "K \<le> length matrix" by (rule build_model_Inr_groups[OF assms(1) n])
  have "length (groups_above s K i) = 1"
    unfolding groups_above_def
    by (rule feasible_exactly_one[OF assms(2) build_model_vars[OF assms(1)]
          build_model_constrs[OF assms(1) K] K assms(3)])
  then obtain k where k: "groups_above s K i = [k]" using length_one by blast
  then have "k \<in> set (groups_above s K i)" by simp
  then have "k < K" by (rule groups_above_less)
  with k show ?thesis by blast
qed




text \<open>
  C7: with a single group, and a solution that is feasible for the model, every team is
  placed in group 0 and the returned total is the sum over all pairs \<open>i < j\<close> of
  \<open>2 \<sqdot> (cost[i][j] + cost[j][i])\<close>.
\<close>

theorem single_group_total:
  assumes "square matrix" "1 \<le> length matrix"
    and "build_model matrix 1 mn mx = Inr m" "solver m = Some s" "feasible m (X s)"
  shows "optimize_ab solver matrix 1 mn mx =
           Inr (replicate (length matrix) (Some 0),
                \<Sum>i\<leftarrow>[0..<length matrix]. \<Sum>j\<leftarrow>[Suc i..<length matrix].
                   2 * (matrix ! i ! j + matrix ! j ! i))"
proof -
  have g: "groups_above s 1 i = [0]" if "i < length matrix" for i
    using feasible_groups_above[OF assms(3,5) that] by auto
  then have one: "\<forall>i<length matrix. length (groups_above s 1 i) = 1" by simp
  then have none: "\<not> (\<exists>i<length matrix. 2 \<le> length (groups_above s 1 i))" by auto
  have t: "map (decoded s 1) [0..<length matrix] = replicate (length matrix) (Some 0)"
    by (intro nth_equalityI) (use g in \<open>simp_all add: decoded_def\<close>)
  have "recompute matrix (replicate (length matrix) (Some 0))
      = (\<Sum>i\<leftarrow>[0..<length matrix]. \<Sum>j\<leftarrow>[Suc i..<length matrix]. 2 * (matrix ! i ! j + matrix ! j ! i))"
    unfolding recompute_def
    by (intro arg_cong[where f=sum_list] map_cong refl) (simp add: algebra_simps)
  then have c: "travel_sum matrix s 1
      = (\<Sum>i\<leftarrow>[0..<length matrix]. \<Sum>j\<leftarrow>[Suc i..<length matrix]. 2 * (matrix ! i ! j + matrix ! j ! i))"
    using travel_sum_recompute[OF one] t by simp
  show ?thesis
    using optimize_ab_some[where solver=solver and m=m, OF assms(1,2,3,4)] none t c by simp
qed

text \<open>
  C7 at two teams one unit apart, with a minimum size of 2.
\<close>

theorem single_group_total_witness:
  "optimize_ab (answer together 0) cost2 1 (Some 2) None = Inr ([Some 0, Some 0], 4)"
proof -
  let ?s = "\<lparr>X = together, ObjVal = 0\<rparr>"
  let ?m = "\<lparr>vars = add_vars (length cost2), objective = obj_expr cost2 1,
          constrs = constr_list (length cost2) 1 (Some 2) None\<rparr>"
  have l: "length cost2 = 2" by (simp add: cost2_def)
  have h2: "1 \<le> length cost2" by (simp add: l)
  have h3: "build_model cost2 1 (Some 2) None = Inr ?m"
    by (rule build_model_ok[OF square_cost2 h2])
  have h4: "answer together 0 ?m = Some ?s" by (simp add: answer_def)
  have h5: "feasible ?m (X ?s)"
    by (simp add: feasible_def l add_vars_def constr_list_def group_sum_def team_sum_def
        bounds_of_def together_def eval_nat_numeral)
  have "optimize_ab (answer together 0) cost2 1 (Some 2) None =
           Inr (replicate (length cost2) (Some 0),
                \<Sum>i\<leftarrow>[0..<length cost2]. \<Sum>j\<leftarrow>[Suc i..<length cost2].
                   2 * (cost2 ! i ! j + cost2 ! j ! i))"
    by (rule single_group_total[where solver="answer together 0" and m="?m",
          OF square_cost2 h2 h3 h4 h5])
  also have "\<dots> = Inr ([Some 0, Some 0], 4)"
    by (simp add: cost2_def)
  finally show ?thesis .
qed

lemma square_ones4: "square ones4"
  by (simp add: square_def ones4_def)

lemma length_ones4: "length ones4 = 4"
  by (simp add: ones4_def)

lemma model_ones4:
  "build_model ones4 2 (Some 2) (Some 2) =
     Inr \<lparr>vars = add_vars 4, objective = obj_expr ones4 2, constrs = constr_list 4 2 (Some 2) (Some 2)\<rparr>"
  using build_model_ok[OF square_ones4, of 2 "Some 2" "Some 2"] by (simp add: length_ones4)

lemma feasible_ones4:
  assumes "feasible \<lparr>vars = add_vars 4, objective = obj, constrs = constr_list 4 2 (Some 2) (Some 2)\<rparr> x"
  shows "(x 0 0 = 0 \<or> x 0 0 = 1) \<and> (x 1 0 = 0 \<or> x 1 0 = 1) \<and> (x 2 0 = 0 \<or> x 2 0 = 1)
       \<and> (x 3 0 = 0 \<or> x 3 0 = 1)
       \<and> x 0 1 = 1 - x 0 0 \<and> x 1 1 = 1 - x 1 0 \<and> x 2 1 = 1 - x 2 0 \<and> x 3 1 = 1 - x 3 0
       \<and> x 0 0 + x 1 0 + x 2 0 + x 3 0 = 2"
  using assms
  by (simp add: feasible_def add_vars_def constr_list_def group_sum_def team_sum_def
        bounds_of_def eval_nat_numeral)

lemma objective_ones4:
  assumes "a = 0 \<or> a = 1" "b = 0 \<or> b = 1" "c = 0 \<or> c = 1" "d = 0 \<or> d = 1"
    and "x 0 0 = a" "x 1 0 = b" "x 2 0 = c" "x 3 0 = d"
    and "x 0 1 = 1 - a" "x 1 1 = 1 - b" "x 2 1 = 1 - c" "x 3 1 = 1 - d"
    and "a + b + c + d = (2::real)"
  shows "eval x (obj_expr ones4 2) = 16"
  unfolding eval_obj_expr length_ones4
  using assms by (auto simp: ones4_def eval_nat_numeral)

lemma travel_ones4:
  assumes "a = 0 \<or> a = 1" "b = 0 \<or> b = 1" "c = 0 \<or> c = 1" "d = 0 \<or> d = 1"
    and "X s 0 0 = a" "X s 1 0 = b" "X s 2 0 = c" "X s 3 0 = d"
    and "X s 0 1 = 1 - a" "X s 1 1 = 1 - b" "X s 2 1 = 1 - c" "X s 3 1 = 1 - d"
    and "a + b + c + d = (2::real)"
  shows "travel_sum ones4 s 2 = 8"
  unfolding travel_sum_def length_ones4
  using assms by (auto simp: ones4_def eval_nat_numeral)

text \<open>
  C8: for four teams at distance 1 of one another, two groups and both size bounds 2,
  every solution that is feasible for the model (every balanced 2-2 split) is optimal:
  no feasible assignment has a larger objective. The total that is returned for it is 8.
\<close>

theorem balanced_split_total:
  assumes "build_model ones4 2 (Some 2) (Some 2) = Inr m" "solver m = Some s" "feasible m (X s)"
  shows "(\<exists>t2g. optimize_ab solver ones4 2 (Some 2) (Some 2) = Inr (t2g, 8))
       \<and> (\<forall>x. feasible m x \<longrightarrow> eval x (objective m) \<le> eval (X s) (objective m))"
proof -
  have m: "m = \<lparr>vars = add_vars 4, objective = obj_expr ones4 2,
                  constrs = constr_list 4 2 (Some 2) (Some 2)\<rparr>"
    using assms(1) model_ones4 by simp
  have obj: "eval x (objective m) = 16" if "feasible m x" for x
  proof -
    note f = feasible_ones4[OF that[unfolded m]]
    have "eval x (obj_expr ones4 2) = 16"
      by (rule objective_ones4[where a="x 0 0" and b="x 1 0" and c="x 2 0" and d="x 3 0"])
        (use f in simp_all)
    then show ?thesis by (simp add: m)
  qed
  have K: "2 \<le> length ones4" by (simp add: length_ones4)
  note f = feasible_ones4[OF assms(3)[unfolded m]]
  have t: "travel_sum ones4 s 2 = 8"
    by (rule travel_ones4[where a="X s 0 0" and b="X s 1 0" and c="X s 2 0" and d="X s 3 0"])
      (use f in simp_all)
  have one: "\<exists>k<2. groups_above s 2 i = [k]" if "i < length ones4" for i
    by (rule feasible_groups_above[OF assms(1,3) that])
  then have none: "\<not> (\<exists>i<length ones4. 2 \<le> length (groups_above s 2 i))" by fastforce
  have r: "optimize_ab solver ones4 2 (Some 2) (Some 2)
      = Inr (map (decoded s 2) [0..<length ones4], 8)"
    using optimize_ab_some[where solver=solver and m=m, OF square_ones4 K assms(1,2)] none t
    by simp
  have opt: "\<forall>x. feasible m x \<longrightarrow> eval x (objective m) \<le> eval (X s) (objective m)"
    using obj assms(3) by simp
  from r opt show ?thesis by blast
qed

text \<open>
  C8 at the split that puts teams 0 and 1 in group 0 and teams 2 and 3 in group 1,
  compared with the split of teams 0 and 2 against teams 1 and 3.
\<close>

theorem balanced_split_total_witness:
  "(\<exists>t2g. optimize_ab (answer halves 16) ones4 2 (Some 2) (Some 2) = Inr (t2g, 8))
   \<and> eval alternate (obj_expr ones4 2) \<le> eval halves (obj_expr ones4 2)"
proof -
  let ?s = "\<lparr>X = halves, ObjVal = 16\<rparr>"
  let ?m = "\<lparr>vars = add_vars 4, objective = obj_expr ones4 2,
             constrs = constr_list 4 2 (Some 2) (Some 2)\<rparr>"
  have h2: "answer halves 16 ?m = Some ?s" by (simp add: answer_def)
  have h3: "feasible ?m (X ?s)"
    by (simp add: feasible_def add_vars_def constr_list_def group_sum_def team_sum_def
        bounds_of_def halves_def eval_nat_numeral)
  have f: "feasible ?m alternate"
    by (simp add: feasible_def add_vars_def constr_list_def group_sum_def team_sum_def
        bounds_of_def alternate_def eval_nat_numeral)
  note claim = balanced_split_total[where solver="answer halves 16" and m="?m", OF model_ones4 h2 h3]
  from claim have a: "\<exists>t2g. optimize_ab (answer halves 16) ones4 2 (Some 2) (Some 2) = Inr (t2g, 8)"
    by (rule conjunct1)
  from claim f have b: "eval alternate (obj_expr ones4 2) \<le> eval halves (obj_expr ones4 2)"
    by auto
  from a b show ?thesis by (rule conjI)
qed

text \<open>
  C9: for every pair of coordinates, \<^verbatim>\<open>distance_car(s, e)\<close> and \<^verbatim>\<open>duration_car(s, e)\<close>
  raise (a TypeError, from subscripting a function object) and never return a value.
\<close>

theorem car_metrics_always_raise:
  "distance_car s e = Inl TypeError \<and> duration_car s e = Inl TypeError"
  by (simp add: distance_car_def duration_car_def)

lemma fold_update_prefix:
  "m \<le> length xs \<Longrightarrow>
     fold (\<lambda>i ys. ys[i := F i (ys ! i)]) [0..<m] xs
       = map (\<lambda>i. if i < m then F i (xs ! i) else xs ! i) [0..<length xs]"
proof (induction m)
  case 0
  show ?case by (simp add: map_nth)
next
  case (Suc m)
  then have m: "m < length xs" by simp
  let ?S = "map (\<lambda>i. if i < m then F i (xs ! i) else xs ! i) [0..<length xs]"
  have IH: "fold (\<lambda>i ys. ys[i := F i (ys ! i)]) [0..<m] xs = ?S" using Suc by simp
  have "?S[m := F m (?S ! m)] = map (\<lambda>i. if i < Suc m then F i (xs ! i) else xs ! i) [0..<length xs]"
    using m by (intro nth_equalityI) (auto simp: nth_list_update less_Suc_eq)
  then show ?case by (simp add: IH)
qed

lemma fold_set_entry:
  "i < length M \<Longrightarrow>
     fold (\<lambda>j M. set_entry M i j (v j)) js M = M[i := fold (\<lambda>j r. r[j := Some (v j)]) js (M ! i)]"
  by (induction js arbitrary: M) (simp_all add: set_entry_def)

lemma row_filled:
  assumes "length r = n"
  shows "fold (\<lambda>j r. r[j := Some (v j)]) [0..<n] r = map (\<lambda>j. Some (v j)) [0..<n]"
proof -
  have "fold (\<lambda>j r. r[j := (\<lambda>j _. Some (v j)) j (r ! j)]) [0..<n] r
      = map (\<lambda>j. if j < n then Some (v j) else r ! j) [0..<length r]"
    by (rule fold_update_prefix) (simp add: assms)
  then show ?thesis using assms by (simp cong: map_cong)
qed

lemma example_matrix_straight_line:
  "example_matrix geodesic draw n Distance_straight_line
     = Inr (map (\<lambda>i. map (\<lambda>j. Some (if i = j then 0 else geodesic (draw i) (draw j))) [0..<n]) [0..<n])"
proof -
  let ?v = "\<lambda>i j. if i = j then 0 else geodesic (draw i) (draw j)"
  let ?F = "\<lambda>i r. fold (\<lambda>j r. r[j := Some (?v i j)]) [0..<n] r"
  let ?M0 = "replicate n (replicate n (None::real option))"
  have inner: "for_each [0..<n] (\<lambda>j matrix.
          and_then (if i = j then Inr 0
                    else call_metric geodesic Distance_straight_line
                           (map draw [0..<n] ! i) (map draw [0..<n] ! j))
            (\<lambda>v. Inr (set_entry matrix i j v))) M
      = Inr (fold (\<lambda>j M. set_entry M i j (?v i j)) [0..<n] M)"
    if "i \<in> set [0..<n]" for i M
    by (rule for_each_pure) (use that in \<open>simp add: distance_straight_line_def\<close>)
  have "example_matrix geodesic draw n Distance_straight_line
      = Inr (fold (\<lambda>i M. fold (\<lambda>j M. set_entry M i j (?v i j)) [0..<n] M) [0..<n] ?M0)"
    unfolding example_matrix_def Let_def
    by (rule for_each_pure) (rule inner)
  also have "fold (\<lambda>i M. fold (\<lambda>j M. set_entry M i j (?v i j)) [0..<n] M) [0..<n] ?M0
      = fold (\<lambda>i M. M[i := ?F i (M ! i)]) [0..<n] ?M0"
  proof -
    have gen: "fold (\<lambda>i M. fold (\<lambda>j M. set_entry M i j (?v i j)) [0..<n] M) is M
      = fold (\<lambda>i M. M[i := ?F i (M ! i)]) is M" if "length M = n" "set is \<subseteq> {..<n}" for "is" M
      using that
    proof (induction "is" arbitrary: M)
      case Nil
      show ?case by simp
    next
      case (Cons i "is")
      then have i: "i < length M" by simp
      show ?case using Cons by (simp add: fold_set_entry[OF i])
    qed
    show ?thesis by (rule gen) auto
  qed
  also have "\<dots> = map (\<lambda>i. if i < n then ?F i (?M0 ! i) else ?M0 ! i) [0..<length ?M0]"
    by (rule fold_update_prefix) simp
  also have "\<dots> = map (\<lambda>i. map (\<lambda>j. Some (?v i j)) [0..<n]) [0..<n]"
    by (simp add: row_filled cong: map_cong)
  finally show ?thesis .
qed

text \<open>
  C10, as stated, fails at \<open>n = 0\<close>: \<^verbatim>\<open>example_matrix(0)\<close> returns the empty matrix, and
  a CostMatrix has at least one row.
\<close>

theorem example_matrix_empty_counterexample:
  "example_matrix taxicab diagonal_draw 0 Distance_straight_line = Inr []
   \<and> \<not> valid_cost_matrix []"
  by (simp add: example_matrix_def valid_cost_matrix_def)

text \<open>
  C10, amended: for every \<open>n \<ge> 1\<close>, \<^verbatim>\<open>example_matrix(n)\<close> with the default metric returns
  an \<open>n \<times> n\<close> matrix that is a valid CostMatrix (zero diagonal, every entry a non-negative
  real) and is symmetric, given that the geodesic distance is symmetric and non-negative.
\<close>

theorem example_matrix_valid:
  assumes "\<forall>a b. geodesic a b = geodesic b a" "\<forall>a b. 0 \<le> geodesic a b" "1 \<le> n"
  shows "\<exists>m. example_matrix geodesic draw n Distance_straight_line = Inr m
           \<and> length m = n \<and> valid_cost_matrix m \<and> symmetric_matrix m"
proof -
  have sym: "geodesic a b = geodesic b a" for a b using assms(1) by blast
  have nn: "0 \<le> geodesic a b" for a b using assms(2) by blast
  let ?m = "map (\<lambda>i. map (\<lambda>j. Some (if i = j then 0 else geodesic (draw i) (draw j))) [0..<n]) [0..<n]"
  have v: "valid_cost_matrix ?m"
    using assms(3) by (simp add: valid_cost_matrix_def list_all_iff nn)
  have s: "symmetric_matrix ?m"
    by (simp add: symmetric_matrix_def list_all_iff sym[of "draw _" "draw _"])
  show ?thesis
    unfolding example_matrix_straight_line using v s by simp
qed

text \<open>
  The amended C10 at three draws and a distance that is symmetric and non-negative.
\<close>

theorem example_matrix_valid_witness:
  "\<exists>m. example_matrix taxicab diagonal_draw 3 Distance_straight_line = Inr m
           \<and> length m = 3 \<and> valid_cost_matrix m \<and> symmetric_matrix m"
proof -
  have h1: "\<forall>a b. taxicab a b = taxicab b a" by (simp add: taxicab_def abs_minus_commute)
  have h2: "\<forall>a b. 0 \<le> taxicab a b" by (simp add: taxicab_def)
  have h3: "(1::nat) \<le> 3" by simp
  show ?thesis by (rule example_matrix_valid[OF h1 h2 h3])
qed

end
